theory Spec2Isabelle
  imports Complex_Main
begin

section \<open>JavaScript numbers\<close>

text \<open>
  The inference code of \<^verbatim>\<open>docs/app.js\<close> computes on JavaScript Numbers. A Number
  is modelled as a real (\<open>Fin\<close>), one of the two infinities, or NaN. The operations
  below give, on \<open>Fin\<close> values, the exact value of the operation. For the four
  arithmetic operators the IEEE double that the program holds is the rounding \<open>dbl\<close> of
  that value (to the nearest double, ties to even, beyond the largest double to an
  infinity); \<^verbatim>\<open>Math.exp\<close> is as close to the exact value as the engine makes it. What
  this theory states about the result of finite arithmetic is therefore about exact
  values, unless \<open>dbl\<close> is written.
  The two zeros are one value (a division by zero takes the sign of the numerator).
  Reading an array beyond its end gives \<^verbatim>\<open>undefined\<close>, which every arithmetic operator
  and every comparison converts to NaN; such a read is the value \<open>NaN\<close> here.
\<close>

datatype jsnum = Fin real | PInf | NInf | NaN

fun js_neg :: "jsnum \<Rightarrow> jsnum" where
  "js_neg (Fin a) = Fin (- a)"
| "js_neg PInf = NInf"
| "js_neg NInf = PInf"
| "js_neg NaN = NaN"

fun js_add :: "jsnum \<Rightarrow> jsnum \<Rightarrow> jsnum" where
  "js_add (Fin a) (Fin b) = Fin (a + b)"
| "js_add NaN _ = NaN"
| "js_add _ NaN = NaN"
| "js_add PInf NInf = NaN"
| "js_add NInf PInf = NaN"
| "js_add PInf _ = PInf"
| "js_add _ PInf = PInf"
| "js_add NInf _ = NInf"
| "js_add _ NInf = NInf"

definition js_sub :: "jsnum \<Rightarrow> jsnum \<Rightarrow> jsnum" where
  "js_sub a b = js_add a (js_neg b)"

fun js_mul :: "jsnum \<Rightarrow> jsnum \<Rightarrow> jsnum" where
  "js_mul (Fin a) (Fin b) = Fin (a * b)"
| "js_mul NaN _ = NaN"
| "js_mul _ NaN = NaN"
| "js_mul (Fin a) PInf = (if a = 0 then NaN else if 0 < a then PInf else NInf)"
| "js_mul (Fin a) NInf = (if a = 0 then NaN else if 0 < a then NInf else PInf)"
| "js_mul PInf (Fin b) = (if b = 0 then NaN else if 0 < b then PInf else NInf)"
| "js_mul NInf (Fin b) = (if b = 0 then NaN else if 0 < b then NInf else PInf)"
| "js_mul PInf PInf = PInf"
| "js_mul NInf NInf = PInf"
| "js_mul PInf NInf = NInf"
| "js_mul NInf PInf = NInf"

fun js_div :: "jsnum \<Rightarrow> jsnum \<Rightarrow> jsnum" where
  "js_div (Fin a) (Fin b) =
     (if b = 0 then (if a = 0 then NaN else if 0 < a then PInf else NInf)
      else Fin (a / b))"
| "js_div NaN _ = NaN"
| "js_div _ NaN = NaN"
| "js_div (Fin a) _ = Fin 0"
| "js_div PInf (Fin b) = (if 0 \<le> b then PInf else NInf)"
| "js_div NInf (Fin b) = (if 0 \<le> b then NInf else PInf)"
| "js_div _ _ = NaN"

fun js_exp :: "jsnum \<Rightarrow> jsnum" where
  "js_exp (Fin a) = Fin (exp a)"
| "js_exp PInf = PInf"
| "js_exp NInf = Fin 0"
| "js_exp NaN = NaN"

text \<open>The comparison \<^verbatim>\<open>a <= b\<close>: false as soon as one side is NaN.\<close>

fun js_le :: "jsnum \<Rightarrow> jsnum \<Rightarrow> bool" where
  "js_le (Fin a) (Fin b) = (a \<le> b)"
| "js_le NaN _ = False"
| "js_le _ NaN = False"
| "js_le NInf _ = True"
| "js_le _ PInf = True"
| "js_le _ _ = False"

text \<open>\<^verbatim>\<open>Math.max\<close> of two arguments, and of a spread array (\<open>-Infinity\<close> when empty).\<close>

fun js_max2 :: "jsnum \<Rightarrow> jsnum \<Rightarrow> jsnum" where
  "js_max2 NaN _ = NaN"
| "js_max2 _ NaN = NaN"
| "js_max2 a b = (if js_le a b then b else a)"

definition math_max :: "jsnum list \<Rightarrow> jsnum" where
  "math_max arr = foldl js_max2 NInf arr"

text \<open>\<^verbatim>\<open>arr[i]\<close> used as a number: NaN when \<open>i\<close> is not an index of \<open>arr\<close>.\<close>

definition nth_js :: "jsnum list \<Rightarrow> nat \<Rightarrow> jsnum" where
  "nth_js arr i = (if i < length arr then arr ! i else NaN)"

text \<open>\<^verbatim>\<open>v || 0\<close>: the falsy Numbers are 0 and NaN (and \<^verbatim>\<open>undefined\<close>, read as NaN).\<close>

definition or_zero :: "jsnum \<Rightarrow> jsnum" where
  "or_zero v = (if v = NaN \<or> v = Fin 0 then Fin 0 else v)"

text \<open>
  Rounding to binary64. \<open>pow2 e\<close> is \<open>2\<close> to the integer power \<open>e\<close>. For \<open>x\<close> with
  \<open>2^e \<le> |x| < 2^(e+1)\<close> the doubles near \<open>x\<close> are the multiples of \<open>2^(e-52)\<close>, and of
  \<open>2^(-1074)\<close> below the normal range; \<open>x\<close> goes to the nearest one, to the even
  multiple at a tie, and to an infinity when that is \<open>2^1024\<close> in size.
\<close>

definition pow2 :: "int \<Rightarrow> real" where
  "pow2 e = (if 0 \<le> e then 2 ^ nat e else 1 / 2 ^ nat (- e))"

definition round_even :: "real \<Rightarrow> int" where
  "round_even q =
     (let f = \<lfloor>q\<rfloor>; d = q - of_int f
      in if d < 1/2 then f else if 1/2 < d then f + 1 else if even f then f else f + 1)"

definition dbl :: "real \<Rightarrow> jsnum" where
  "dbl x =
     (if x = 0 then Fin 0
      else let e = max \<lfloor>log 2 \<bar>x\<bar>\<rfloor> (- 1022);
               u = pow2 (e - 52);
               y = of_int (round_even (x / u)) * u
           in if 2 ^ 1024 \<le> \<bar>y\<bar> then (if 0 < x then PInf else NInf) else Fin y)"

section \<open>Softmax\<close>

text \<open>
  \<^verbatim>\<open>
  function softmax(arr) {
    const max = Math.max(...arr);
    const exps = arr.map(v => Math.exp(v - max));
    const sum = exps.reduce((a,b)=>a+b, 0);
    return exps.map(e => e / sum);
  }
  \<close>
\<close>

definition softmax :: "jsnum list \<Rightarrow> jsnum list" where
  "softmax arr =
     (let mx = math_max arr;
          exps = map (\<lambda>v. js_exp (js_sub v mx)) arr;
          sum = foldl js_add (Fin 0) exps
      in map (\<lambda>e. js_div e sum) exps)"

text \<open>The same computation on reals, for vectors of finite scores.\<close>

definition softmax_real :: "real list \<Rightarrow> real list" where
  "softmax_real s =
     map (\<lambda>v. exp (v - Max (set s)) / (\<Sum>u\<leftarrow>s. exp (u - Max (set s)))) s"

section \<open>The model document\<close>

text \<open>
  \<^verbatim>\<open>exportData\<close> is the parsed \<^verbatim>\<open>models.json\<close>: the scaler's parameters, the class
  names and the models by name. It is a global of the script, loaded once; every function
  that reads it takes it as its first argument here. A model record carries a
  \<^verbatim>\<open>type\<close> string and the fields its predictor reads: \<^verbatim>\<open>coef\<close> and
  \<^verbatim>\<open>intercept\<close> for \<^verbatim>\<open>'linear'\<close>, \<^verbatim>\<open>n_classes\<close> (which may be absent) and
  \<^verbatim>\<open>trees\<close> for \<^verbatim>\<open>'rf'\<close>, \<^verbatim>\<open>coefs\<close> and \<^verbatim>\<open>intercepts\<close> for \<^verbatim>\<open>'mlp'\<close>;
  \<open>Other ty\<close> is a record whose type is none of the three. A tree is an array of nodes;
  child indices are integers, \<open>-1\<close> on both sides marking a leaf.
\<close>

record node =
  feature :: int
  threshold :: jsnum
  left :: int
  right :: int
  "value" :: "jsnum list"

record rf_model =
  n_classes :: "nat option"
  trees :: "node list list"

record mlp_model =
  coefs :: "jsnum list list list"
  intercepts :: "jsnum list list"

datatype model =
    Linear "jsnum list list" "jsnum list"
  | RF rf_model
  | MLP mlp_model
  | Other string

record export_data =
  scaler_mean :: "jsnum list"
  scaler_scale :: "jsnum list"
  class_names :: "string list"
  models :: "string \<Rightarrow> model option"

text \<open>
  Reading a property of \<^verbatim>\<open>undefined\<close> throws a TypeError; it is the only exception the
  inference functions can raise on a document of this shape.
\<close>

datatype error = TypeError

section \<open>Scaling\<close>

text \<open>
  \<^verbatim>\<open>
  function scaleFeatures(features) {
    const mean = exportData.scaler_mean;
    const scale = exportData.scaler_scale;
    return features.map((v,i) => (Number(v) - mean[i]) / scale[i]);
  }
  \<close>
  \<^verbatim>\<open>Number(v)\<close> is \<open>v\<close> on a Number.
\<close>

definition scaleFeatures :: "export_data \<Rightarrow> jsnum list \<Rightarrow> jsnum list" where
  "scaleFeatures ed features =
     map (\<lambda>i. js_div (js_sub (features ! i) (nth_js (scaler_mean ed) i))
                      (nth_js (scaler_scale ed) i))
         [0..<length features]"

section \<open>Linear models\<close>

text \<open>
  \<^verbatim>\<open>
  function scoreLinear(coef, intercept, xs) {
    const nClasses = coef.length;
    const scores = [];
    for (let c = 0; c < nClasses; c++) {
      let s = intercept[c] || 0;
      const row = coef[c];
      for (let i = 0; i < row.length; i++) s += row[i] * xs[i];
      scores.push(s);
    }
    return softmax(scores);
  }
  \<close>
\<close>

definition linear_score :: "jsnum list \<Rightarrow> jsnum \<Rightarrow> jsnum list \<Rightarrow> jsnum" where
  "linear_score row s0 xs =
     foldl (\<lambda>s i. js_add s (js_mul (row ! i) (nth_js xs i))) s0 [0..<length row]"

definition scoreLinear :: "jsnum list list \<Rightarrow> jsnum list \<Rightarrow> jsnum list \<Rightarrow> jsnum list" where
  "scoreLinear coef intercept xs =
     softmax (map (\<lambda>c. linear_score (coef ! c) (or_zero (nth_js intercept c)) xs)
                  [0..<length coef])"

section \<open>Random forests\<close>

text \<open>
  \<^verbatim>\<open>
  function predictTree(treeNodes, xs) {
    let node = 0;
    while (true) {
      const n = treeNodes[node];
      const left = n.left, right = n.right;
      if (left === -1 && right === -1) { return n.value; }
      const f = n.feature;
      const th = n.threshold;
      if (xs[f] <= th) { node = left; } else { node = right; }
    }
  }
  \<close>
  The loop has no exit but the leaf test, so it is a partial function: \<open>None\<close> is a
  traversal that never returns. \<^verbatim>\<open>treeNodes[node]\<close> is \<^verbatim>\<open>undefined\<close> when
  \<open>node\<close> is not an index of the array, and reading \<^verbatim>\<open>n.left\<close> then throws.
\<close>

definition idx_js :: "jsnum list \<Rightarrow> int \<Rightarrow> jsnum" where
  "idx_js arr i = (if 0 \<le> i then nth_js arr (nat i) else NaN)"

definition is_leaf :: "node \<Rightarrow> bool" where
  "is_leaf n = (left n = - 1 \<and> right n = - 1)"

definition in_tree :: "node list \<Rightarrow> int \<Rightarrow> bool" where
  "in_tree treeNodes node = (0 \<le> node \<and> nat node < length treeNodes)"

definition next_node :: "node \<Rightarrow> jsnum list \<Rightarrow> int" where
  "next_node n xs = (if js_le (idx_js xs (feature n)) (threshold n) then left n else right n)"

partial_function (option) predictTree_loop ::
  "node list \<Rightarrow> jsnum list \<Rightarrow> int \<Rightarrow> (error + jsnum list) option" where
  "predictTree_loop treeNodes xs node =
     (if \<not> in_tree treeNodes node then Some (Inl TypeError)
      else if is_leaf (treeNodes ! nat node) then Some (Inr (value (treeNodes ! nat node)))
      else predictTree_loop treeNodes xs (next_node (treeNodes ! nat node) xs))"

definition predictTree :: "node list \<Rightarrow> jsnum list \<Rightarrow> (error + jsnum list) option" where
  "predictTree treeNodes xs = predictTree_loop treeNodes xs 0"

text \<open>The same loop, stopped after \<open>k\<close> iterations (\<open>None\<close>: still running).\<close>

fun predictTree_within ::
  "nat \<Rightarrow> node list \<Rightarrow> jsnum list \<Rightarrow> int \<Rightarrow> (error + jsnum list) option" where
  "predictTree_within 0 treeNodes xs node = None"
| "predictTree_within (Suc k) treeNodes xs node =
     (if \<not> in_tree treeNodes node then Some (Inl TypeError)
      else if is_leaf (treeNodes ! nat node) then Some (Inr (value (treeNodes ! nat node)))
      else predictTree_within k treeNodes xs (next_node (treeNodes ! nat node) xs))"

text \<open>
  \<^verbatim>\<open>
  function predictRF(rfModel, xs) {
    const nClasses = rfModel.n_classes || exportData.class_names.length;
    const agg = new Array(nClasses).fill(0);
    rfModel.trees.forEach(tree => {
      const counts = predictTree(tree, xs);
      for (let i = 0; i < counts.length; i++) agg[i] += counts[i];
    });
    const total = agg.reduce((a,b)=>a+b, 0);
    return agg.map(v => v / total);
  }
  \<close>
  Writing \<^verbatim>\<open>agg[i]\<close> beyond the end of \<^verbatim>\<open>agg\<close> extends the array; the element read
  there is \<^verbatim>\<open>undefined\<close>, so the sum stored is NaN.
\<close>

definition add_counts :: "jsnum list \<Rightarrow> jsnum list \<Rightarrow> jsnum list" where
  "add_counts agg counts =
     map (\<lambda>i. if i < length counts then js_add (nth_js agg i) (counts ! i) else agg ! i)
         [0..<max (length agg) (length counts)]"

fun rf_accumulate ::
  "node list list \<Rightarrow> jsnum list \<Rightarrow> jsnum list \<Rightarrow> (error + jsnum list) option" where
  "rf_accumulate [] xs agg = Some (Inr agg)"
| "rf_accumulate (tree # rest) xs agg =
     (case predictTree tree xs of
        None \<Rightarrow> None
      | Some (Inl e) \<Rightarrow> Some (Inl e)
      | Some (Inr counts) \<Rightarrow> rf_accumulate rest xs (add_counts agg counts))"

definition rf_nClasses :: "export_data \<Rightarrow> rf_model \<Rightarrow> nat" where
  "rf_nClasses ed rfModel =
     (case n_classes rfModel of
        None \<Rightarrow> length (class_names ed)
      | Some n \<Rightarrow> if n = 0 then length (class_names ed) else n)"

definition rf_normalize :: "jsnum list \<Rightarrow> jsnum list" where
  "rf_normalize agg = (let total = foldl js_add (Fin 0) agg in map (\<lambda>v. js_div v total) agg)"

definition predictRF ::
  "export_data \<Rightarrow> rf_model \<Rightarrow> jsnum list \<Rightarrow> (error + jsnum list) option" where
  "predictRF ed rfModel xs =
     (case rf_accumulate (trees rfModel) xs (replicate (rf_nClasses ed rfModel) (Fin 0)) of
        None \<Rightarrow> None
      | Some (Inl e) \<Rightarrow> Some (Inl e)
      | Some (Inr agg) \<Rightarrow> Some (Inr (rf_normalize agg)))"

section \<open>Multi-layer perceptrons\<close>

text \<open>
  \<^verbatim>\<open>
  function mlpPredict(mlpModel, xs_raw) {
    let a = xs_raw.slice();
    for (let layer = 0; layer < mlpModel.coefs.length; layer++) {
      const W = mlpModel.coefs[layer];
      const b = mlpModel.intercepts[layer];
      const out = new Array(b.length).fill(0);
      for (let j = 0; j < b.length; j++) {
        let s = b[j];
        for (let i = 0; i < a.length; i++) { s += a[i] * W[i][j]; }
        out[j] = s;
      }
      if (layer < mlpModel.coefs.length - 1) {
        for (let j = 0; j < out.length; j++) out[j] = Math.max(0, out[j]);
      }
      a = out;
    }
    return softmax(a);
  }
  \<close>
  \<^verbatim>\<open>b.length\<close> throws when \<^verbatim>\<open>intercepts\<close> has no entry for the layer, and
  \<^verbatim>\<open>W[i][j]\<close> throws when \<open>W\<close> has fewer rows than \<open>a\<close> has entries (at the first
  output, so only when \<open>b\<close> is not empty). A row of \<open>W\<close> that is too short reads as
  \<^verbatim>\<open>undefined\<close>.
\<close>

definition mlp_dense :: "jsnum list list \<Rightarrow> jsnum list \<Rightarrow> jsnum list \<Rightarrow> error + jsnum list" where
  "mlp_dense W b a =
     (if b \<noteq> [] \<and> length W < length a then Inl TypeError
      else Inr (map (\<lambda>j. foldl (\<lambda>s i. js_add s (js_mul (a ! i) (nth_js (W ! i) j)))
                                 (b ! j) [0..<length a])
                    [0..<length b]))"

definition relu :: "jsnum \<Rightarrow> jsnum" where
  "relu v = js_max2 (Fin 0) v"

function mlp_loop :: "mlp_model \<Rightarrow> nat \<Rightarrow> jsnum list \<Rightarrow> error + jsnum list" where
  "mlp_loop mlpModel layer a =
     (if layer < length (coefs mlpModel) then
        (if length (intercepts mlpModel) \<le> layer then Inl TypeError
         else case mlp_dense (coefs mlpModel ! layer) (intercepts mlpModel ! layer) a of
                Inl e \<Rightarrow> Inl e
              | Inr out \<Rightarrow>
                  mlp_loop mlpModel (Suc layer)
                    (if Suc layer < length (coefs mlpModel) then map relu out else out))
      else Inr (softmax a))"
  by pat_completeness auto
termination
  by (relation "measure (\<lambda>(mlpModel, layer, a). length (coefs mlpModel) - layer)") auto

declare mlp_loop.simps [simp del]

definition mlpPredict :: "mlp_model \<Rightarrow> jsnum list \<Rightarrow> error + jsnum list" where
  "mlpPredict mlpModel xs_raw = mlp_loop mlpModel 0 xs_raw"

section \<open>Dispatch\<close>

text \<open>
  \<^verbatim>\<open>
  function predictWithModel(modelName, xs_scaled) {
    const model = exportData.models[modelName];
    if (!model) return null;
    if (model.type === 'linear') {
      return scoreLinear(model.coef, model.intercept, xs_scaled);
    } else if (model.type === 'rf') {
      return predictRF(model, xs_scaled);
    } else if (model.type === 'mlp') {
      return mlpPredict(model, xs_scaled);
    } else {
      console.warn("Unknown model type", modelName, model.type);
      return null;
    }
  }
  \<close>
  The result is \<open>None\<close> when a traversal never returns, \<open>Some (Inl e)\<close> when \<open>e\<close> is
  thrown, \<open>Some (Inr None)\<close> for \<^verbatim>\<open>null\<close> and \<open>Some (Inr (Some probs))\<close> for a vector.
\<close>

definition predictWithModel ::
  "export_data \<Rightarrow> string \<Rightarrow> jsnum list \<Rightarrow> (error + jsnum list option) option" where
  "predictWithModel ed modelName xs_scaled =
     (case models ed modelName of
        None \<Rightarrow> Some (Inr None)
      | Some (Linear coef intercept) \<Rightarrow> Some (Inr (Some (scoreLinear coef intercept xs_scaled)))
      | Some (RF rfModel) \<Rightarrow> map_option (map_sum id Some) (predictRF ed rfModel xs_scaled)
      | Some (MLP mlpModel) \<Rightarrow> Some (map_sum id Some (mlpPredict mlpModel xs_scaled))
      | Some (Other ty) \<Rightarrow> Some (Inr None))"

section \<open>The winning class\<close>

text \<open>
  \<^verbatim>\<open>const maxIdx = probs.indexOf(Math.max(...probs));\<close> in \<^verbatim>\<open>probsToText\<close>, and the
  same expression wherever the script reports a winner. \<^verbatim>\<open>indexOf\<close> compares with
  \<^verbatim>\<open>===\<close>, under which NaN equals nothing, and returns \<open>-1\<close> when nothing is found.
\<close>

definition js_strict_eq :: "jsnum \<Rightarrow> jsnum \<Rightarrow> bool" where
  "js_strict_eq a b = (a \<noteq> NaN \<and> a = b)"

fun indexOf_from :: "nat \<Rightarrow> jsnum list \<Rightarrow> jsnum \<Rightarrow> int" where
  "indexOf_from k [] v = - 1"
| "indexOf_from k (x # arr) v = (if js_strict_eq x v then int k else indexOf_from (Suc k) arr v)"

definition indexOf :: "jsnum list \<Rightarrow> jsnum \<Rightarrow> int" where
  "indexOf arr v = indexOf_from 0 arr v"

definition maxIdx :: "jsnum list \<Rightarrow> int" where
  "maxIdx probs = indexOf probs (math_max probs)"

section \<open>The single-model script\<close>

text \<open>
  The second script of the repository loads one linear model (\<^verbatim>\<open>model_params.json\<close>:
  the scaler, \<^verbatim>\<open>coef\<close>, \<^verbatim>\<open>intercept\<close> and the class names) and has the same
  \<^verbatim>\<open>softmax\<close>. Its prediction scales, scores and picks the winner in one function:
  \<^verbatim>\<open>
  function predictFromFeatures(features) {
    const mean = model.scaler_mean;
    const scale = model.scaler_scale;
    const xs = features.map((v, i) => (Number(v) - mean[i]) / scale[i]);
    const coefs = model.coef;
    const intercept = model.intercept;
    const scores = coefs.map((row, c) => {
      let s = intercept[c];
      for (let i = 0; i < row.length; i++) s += row[i] * xs[i];
      return s;
    });
    const probs = softmax(scores);
    const best = probs.indexOf(Math.max(...probs));
    return { classIndex: best, className: model.class_names[best], probs: probs };
  }
  \<close>
  The fields of the global \<^verbatim>\<open>model\<close> are arguments here; \<^verbatim>\<open>className\<close> is
  \<open>None\<close> when \<^verbatim>\<open>class_names[best]\<close> is \<^verbatim>\<open>undefined\<close>.
\<close>

record prediction =
  classIndex :: int
  className :: "string option"
  probs :: "jsnum list"

definition predictFromFeatures ::
  "jsnum list \<Rightarrow> jsnum list \<Rightarrow> jsnum list list \<Rightarrow> jsnum list \<Rightarrow> string list \<Rightarrow> jsnum list
     \<Rightarrow> prediction" where
  "predictFromFeatures mean scale coef intercept names features =
     (let xs = map (\<lambda>i. js_div (js_sub (features ! i) (nth_js mean i)) (nth_js scale i))
                   [0..<length features];
          scores = map (\<lambda>c. linear_score (coef ! c) (nth_js intercept c) xs) [0..<length coef];
          ps = softmax scores;
          best = maxIdx ps
      in \<lparr>classIndex = best,
          className = (if 0 \<le> best \<and> nat best < length names then Some (names ! nat best)
                       else None),
          probs = ps\<rparr>)"

section \<open>The specification's reading of trees and networks\<close>

text \<open>
  Acyclicity of a tree, witnessed by a rank that decreases from a node to its children:
  the tree is not empty, and both children of every node that is not a leaf are indices
  of the tree with a smaller rank.
\<close>

definition child_ok :: "node list \<Rightarrow> (nat \<Rightarrow> nat) \<Rightarrow> nat \<Rightarrow> int \<Rightarrow> bool" where
  "child_ok t rank i c = (in_tree t c \<and> rank (nat c) < rank i)"

definition wf_tree :: "node list \<Rightarrow> (nat \<Rightarrow> nat) \<Rightarrow> bool" where
  "wf_tree t rank =
     (t \<noteq> [] \<and>
      list_all (\<lambda>i. is_leaf (t ! i) \<or>
                     (child_ok t rank i (left (t ! i)) \<and> child_ok t rank i (right (t ! i))))
               [0..<length t])"

text \<open>
  A tree as the specification has it: a node is \<open>Internal\<close> with its feature index,
  threshold and the indices of its two children, or a \<open>Leaf\<close> with its class counts.
  \<open>node_rel\<close> says which node record of the document stands for a node of the
  specification: the record of an internal node carries the same four values, the record
  of a leaf has \<open>-1\<close> for both children and the counts as its \<^verbatim>\<open>value\<close>.
\<close>

datatype snode = Internal nat real nat nat | Leaf "real list"

definition node_rel :: "snode \<Rightarrow> node \<Rightarrow> bool" where
  "node_rel sn n =
     (case sn of
        Internal f th l r \<Rightarrow>
          feature n = int f \<and> threshold n = Fin th \<and> left n = int l \<and> right n = int r
      | Leaf cs \<Rightarrow> left n = - 1 \<and> right n = - 1 \<and> value n = map Fin cs)"

text \<open>
  The invariant of a tree of the specification, for feature vectors of length \<open>F\<close>: the
  tree is not empty, and every internal node tests a feature below \<open>F\<close> and has children
  that are indices of the tree, of smaller rank.
\<close>

definition wf_stree :: "snode list \<Rightarrow> (nat \<Rightarrow> nat) \<Rightarrow> nat \<Rightarrow> bool" where
  "wf_stree st rank F =
     (st \<noteq> [] \<and>
      list_all (\<lambda>i. case st ! i of
                       Leaf cs \<Rightarrow> True
                     | Internal f th l r \<Rightarrow>
                         f < F \<and> l < length st \<and> r < length st
                         \<and> rank l < rank i \<and> rank r < rank i)
               [0..<length st])"

text \<open>
  Traversal as the specification words it, on real features: at an internal node go to
  the left child if \<open>xs[featureIndex] \<le> threshold\<close> and to the right child otherwise;
  stop at a leaf with its class counts.
\<close>

inductive traverse_spec :: "snode list \<Rightarrow> real list \<Rightarrow> nat \<Rightarrow> real list \<Rightarrow> bool"
  for st :: "snode list" and xs :: "real list" where
  at_leaf: "i < length st \<Longrightarrow> st ! i = Leaf cs \<Longrightarrow> traverse_spec st xs i cs"
| go_left: "i < length st \<Longrightarrow> st ! i = Internal f th l r \<Longrightarrow> xs ! f \<le> th \<Longrightarrow>
            traverse_spec st xs l cs \<Longrightarrow> traverse_spec st xs i cs"
| go_right: "i < length st \<Longrightarrow> st ! i = Internal f th l r \<Longrightarrow> th < xs ! f \<Longrightarrow>
            traverse_spec st xs r cs \<Longrightarrow> traverse_spec st xs i cs"

text \<open>
  The vector \<open>s\<close> shifted by \<open>k\<close> as the program can form it: every entry is the double
  nearest to \<open>s[i] + k\<close>.
\<close>

definition shifted :: "real list \<Rightarrow> real \<Rightarrow> jsnum list" where
  "shifted s k = map (\<lambda>v. dbl (v + k)) s"

text \<open>
  The aggregate of a forest as the specification words it, on reals: the elementwise sum
  of the class counts reached in each tree, from \<open>n\<close> zeros.
\<close>

definition sum_counts :: "nat \<Rightarrow> real list list \<Rightarrow> real list" where
  "sum_counts n css = foldl (\<lambda>agg cs. map2 (+) agg cs) (replicate n 0) css"

text \<open>
  The forward pass as the specification words it, on reals: a layer is its weight matrix
  (one row per input) and its bias; \<open>out[j] = bias[j] + \<Sum>i. a[i] * weights[i][j]\<close>; ReLU
  after every layer but the last.
\<close>

type_synonym layer = "real list list \<times> real list"

definition dense_spec :: "layer \<Rightarrow> real list \<Rightarrow> real list" where
  "dense_spec l a =
     map (\<lambda>j. snd l ! j + (\<Sum>i<length a. a ! i * (fst l ! i) ! j)) [0..<length (snd l)]"



definition mlp_of :: "layer list \<Rightarrow> mlp_model" where
  "mlp_of ls = \<lparr>coefs = map (\<lambda>l. map (map Fin) (fst l)) ls,
               intercepts = map (\<lambda>l. map Fin (snd l)) ls\<rparr>"

section \<open>Example documents\<close>

text \<open>
  The tree of the specification's scenario, as node records and as the specification
  has it: a root testing feature 0 against 0.5, and two leaves with counts \<open>[5, 0]\<close> and
  \<open>[0, 5]\<close>; its rank is 1 at the root and 0 at the leaves. A tree whose only node names itself as both children. A network of one layer
  with the identity as weights and no bias, and one of two such layers. A document with
  one model of each type.
\<close>

definition stump :: "node list" where
  "stump = [\<lparr>feature = 0, threshold = Fin (1/2), left = 1, right = 2, value = []\<rparr>,
            \<lparr>feature = - 2, threshold = Fin (- 2), left = - 1, right = - 1, value = [Fin 5, Fin 0]\<rparr>,
            \<lparr>feature = - 2, threshold = Fin (- 2), left = - 1, right = - 1, value = [Fin 0, Fin 5]\<rparr>]"

definition stump_spec :: "snode list" where
  "stump_spec = [Internal 0 (1/2) 1 2, Leaf [5, 0], Leaf [0, 5]]"

definition stump_rank :: "nat \<Rightarrow> nat" where
  "stump_rank i = (if i = 0 then 1 else 0)"

definition cyclic_tree :: "node list" where
  "cyclic_tree = [\<lparr>feature = 0, threshold = Fin 0, left = 0, right = 0, value = []\<rparr>]"



definition demo :: export_data where
  "demo = \<lparr>scaler_mean = [Fin 0], scaler_scale = [Fin 1], class_names = [''a'', ''b''],
           models = map_of [(''logistic'', Linear [[Fin 1]] [Fin 0]),
                            (''random_forest'', RF \<lparr>n_classes = None, trees = []\<rparr>),
                            (''mlp'', MLP \<lparr>coefs = [], intercepts = []\<rparr>)]\<rparr>"

section \<open>Facts about softmax\<close>

lemma js_sub_Fin [simp]: "js_sub (Fin a) (Fin b) = Fin (a - b)"
  by (simp add: js_sub_def)

lemma foldl_js_max2_Fin:
  "foldl js_max2 (Fin m) (map Fin s) = Fin (foldl max m s)"
proof (induction s arbitrary: m)
  case Nil
  show ?case by simp
next
  case (Cons x s)
  have "js_max2 (Fin m) (Fin x) = Fin (max m x)"
    by (simp add: max_def)
  with Cons show ?case by simp
qed

lemma foldl_max_Max: "foldl max (m::real) s = Max (set (m # s))"
proof (induction s arbitrary: m)
  case Nil
  show ?case by simp
next
  case (Cons x s)
  have "foldl max m (x # s) = Max (set (max m x # s))"
    using Cons by simp
  also have "\<dots> = Max (set (m # x # s))"
  proof (cases "s = []")
    case True
    then show ?thesis by simp
  next
    case False
    then show ?thesis by (simp add: max.assoc)
  qed
  finally show ?case .
qed

lemma math_max_Fin:
  assumes "s \<noteq> []"
  shows "math_max (map Fin s) = Fin (Max (set s))"
proof -
  from assms obtain x t where s: "s = x # t" by (cases s) auto
  have "math_max (map Fin s) = foldl js_max2 (Fin x) (map Fin t)"
    by (simp add: math_max_def s)
  also have "\<dots> = Fin (Max (set (x # t)))"
    by (simp only: foldl_js_max2_Fin foldl_max_Max)
  finally show ?thesis by (simp add: s)
qed

lemma foldl_js_add_Fin:
  "foldl js_add (Fin a) (map Fin es) = Fin (a + sum_list es)"
  by (induction es arbitrary: a) (simp_all add: add.assoc)

lemma sum_exp_pos:
  assumes "s \<noteq> []"
  shows "0 < (\<Sum>u\<leftarrow>s. exp (u - (m::real)))"
proof -
  from assms obtain x t where s: "s = x # t" by (cases s) auto
  have "0 \<le> (\<Sum>u\<leftarrow>t. exp (u - m))"
    by (rule sum_list_nonneg) auto
  moreover have "0 < exp (x - m)" by simp
  ultimately show ?thesis by (simp add: s add_pos_nonneg)
qed

lemma softmax_Fin: "softmax (map Fin s) = map Fin (softmax_real s)"
proof (cases "s = []")
  case True
  then show ?thesis by (simp add: softmax_def softmax_real_def)
next
  case False
  define M where "M = Max (set s)"
  define Z where "Z = (\<Sum>u\<leftarrow>s. exp (u - M))"
  have Z: "Z \<noteq> 0" using sum_exp_pos [OF False, of M] by (simp add: Z_def)
  have exps: "map (\<lambda>v. js_exp (js_sub v (Fin M))) (map Fin s) = map Fin (map (\<lambda>u. exp (u - M)) s)"
    by simp
  have sum: "foldl js_add (Fin 0) (map Fin (map (\<lambda>u. exp (u - M)) s)) = Fin Z"
    by (simp only: foldl_js_add_Fin Z_def) simp
  have "softmax (map Fin s) = map (\<lambda>e. js_div e (Fin Z)) (map Fin (map (\<lambda>u. exp (u - M)) s))"
    unfolding softmax_def Let_def math_max_Fin [OF False] M_def [symmetric] exps sum ..
  also have "\<dots> = map Fin (map (\<lambda>v. exp (v - M) / Z) s)"
    using Z by simp
  finally show ?thesis by (simp add: softmax_real_def M_def Z_def)
qed

lemma elem_le_sum_list_real:
  "(\<forall>x\<in>set xs. 0 \<le> f x) \<Longrightarrow> v \<in> set xs \<Longrightarrow> (f v :: real) \<le> sum_list (map f xs)"
proof (induction xs)
  case Nil
  then show ?case by simp
next
  case (Cons a xs)
  have "0 \<le> sum_list (map f xs)" using Cons.prems(1) by (intro sum_list_nonneg) auto
  with Cons show ?case by auto
qed

lemma sum_list_divide:
  "(\<Sum>v\<leftarrow>s. g v / (Z::real)) = (\<Sum>v\<leftarrow>s. g v) / Z"
  by (induction s) (simp_all add: add_divide_distrib)

lemma softmax_real_range:
  assumes "p \<in> set (softmax_real s)"
  shows "0 \<le> p \<and> p \<le> 1"
proof -
  define M where "M = Max (set s)"
  define Z where "Z = (\<Sum>u\<leftarrow>s. exp (u - M))"
  from assms obtain v where v: "v \<in> set s" and p: "p = exp (v - M) / Z"
    by (auto simp: softmax_real_def M_def Z_def)
  from v have ne: "s \<noteq> []" by auto
  have Z: "0 < Z" unfolding Z_def by (rule sum_exp_pos [OF ne])
  have "exp (v - M) \<le> Z"
    unfolding Z_def by (rule elem_le_sum_list_real [where f = "\<lambda>u. exp (u - M)"]) (simp_all add: v)
  with Z show ?thesis by (simp add: p)
qed

lemma softmax_real_sum:
  assumes "s \<noteq> []"
  shows "sum_list (softmax_real s) = 1"
proof -
  have "0 < (\<Sum>u\<leftarrow>s. exp (u - Max (set s)))" by (rule sum_exp_pos [OF assms])
  then show ?thesis
    by (simp add: softmax_real_def sum_list_divide comp_def)
qed

lemma softmax_real_shift: "softmax_real (map (\<lambda>v. v + k) s) = softmax_real s"
proof (cases "s = []")
  case True
  then show ?thesis by (simp add: softmax_real_def)
next
  case False
  then have "Max (set (map (\<lambda>v. v + k) s)) = Max (set s) + k"
    by (simp add: Max_add_commute)
  then show ?thesis
    by (simp add: softmax_real_def comp_def)
qed

text \<open>
  C6. For every non-empty vector \<open>s\<close> of finite scores, \<open>softmax\<close> returns the vector
  \<open>exp (s[i] - m) / \<Sum>j. exp (s[j] - m)\<close> with \<open>m\<close> the maximum of \<open>s\<close>; it has the length
  of \<open>s\<close>, every entry lies between 0 and 1, and the entries sum to 1 (exactly, on reals,
  hence within the tolerance \<open>1e-6\<close>).
\<close>

theorem softmax_probability_vector:
  assumes "s \<noteq> []"
  shows "softmax (map Fin s) = map Fin (softmax_real s)
       \<and> length (softmax_real s) = length s
       \<and> (\<forall>p\<in>set (softmax_real s). 0 \<le> p \<and> p \<le> 1)
       \<and> \<bar>sum_list (softmax_real s) - 1\<bar> \<le> 1 / 10 ^ 6"
  using assms softmax_real_range [of _ s]
  by (simp add: softmax_Fin softmax_real_sum) (simp add: softmax_real_def)

theorem softmax_probability_vector_witness:
  "[2, -3] \<noteq> ([]::real list)
   \<and> softmax [Fin 2, Fin (-3)] = map Fin (softmax_real [2, -3])
   \<and> list_all (\<lambda>p. 0 \<le> p \<and> p \<le> 1) (softmax_real [2, -3])
   \<and> \<bar>sum_list (softmax_real [2, -3]) - 1\<bar> \<le> 1 / 10 ^ 6"
  using softmax_probability_vector [of "[2, -3]"] by (simp add: list_all_iff)

lemma softmax_shift_reals:
  "softmax (map Fin (map (\<lambda>v. v + k) s)) = softmax (map Fin s)"
  by (simp only: softmax_Fin softmax_real_shift)

text \<open>
  Rounding at a known exponent, and the doubles it gives at some reals: small integers
  and \<open>2^53\<close> are doubles, \<open>2^53 + 1\<close> is not and goes to \<open>2^53\<close>; the largest double is
  \<open>2^1024 - 2^971\<close>, and half a step above it the rounding is \<open>Infinity\<close>; \<open>0.1\<close> is not a
  double.
\<close>

lemma pow2_powr: "2 powr real_of_int e = pow2 e"
  by (simp add: pow2_def powr_int)

lemma pow2_pos: "0 < pow2 e"
  by (simp add: pow2_def)

lemma floor_log2_between:
  assumes "pow2 e \<le> \<bar>x\<bar>" and "\<bar>x\<bar> < pow2 (e + 1)"
  shows "\<lfloor>log 2 \<bar>x\<bar>\<rfloor> = e"
proof -
  from assms(1) pow2_pos [of e] have "0 < \<bar>x\<bar>" by linarith
  moreover have "2 powr (real_of_int e + 1) = pow2 (e + 1)"
    using pow2_powr [of "e + 1"] by simp
  ultimately show ?thesis
    using assms by (simp add: floor_log_eq_powr_iff pow2_powr)
qed

lemma dbl_at_exponent:
  assumes "pow2 e \<le> \<bar>x\<bar>" and "\<bar>x\<bar> < pow2 (e + 1)" and "- 1022 \<le> e"
  shows "dbl x = (if 2 ^ 1024 \<le> \<bar>of_int (round_even (x / pow2 (e - 52))) * pow2 (e - 52)\<bar>
                  then (if 0 < x then PInf else NInf)
                  else Fin (of_int (round_even (x / pow2 (e - 52))) * pow2 (e - 52)))"
proof -
  from assms(1) pow2_pos [of e] have "x \<noteq> 0" by auto
  moreover have "max \<lfloor>log 2 \<bar>x\<bar>\<rfloor> (- 1022) = e"
    using floor_log2_between [OF assms(1,2)] assms(3) by simp
  ultimately show ?thesis by (simp add: dbl_def Let_def)
qed

lemma dbl_2: "dbl 2 = Fin 2"
  by (subst dbl_at_exponent [where e = 1]) (simp_all add: pow2_def round_even_def)

lemma dbl_3: "dbl 3 = Fin 3"
  by (subst dbl_at_exponent [where e = 1]) (simp_all add: pow2_def round_even_def)

lemma dbl_2_53: "dbl (2 ^ 53) = Fin (2 ^ 53)"
  by (subst dbl_at_exponent [where e = 53]) (simp_all add: pow2_def round_even_def)

lemma dbl_2_53_plus_1: "dbl (1 + 2 ^ 53) = Fin (2 ^ 53)"
  by (subst dbl_at_exponent [where e = 53]) (simp_all add: pow2_def round_even_def)

lemma dbl_largest: "dbl (2 ^ 1024 - 2 ^ 971) = Fin (2 ^ 1024 - 2 ^ 971)"
  by (subst dbl_at_exponent [where e = 1023]) (simp_all add: pow2_def round_even_def)

lemma dbl_overflow: "dbl (2 ^ 1024 - 2 ^ 970) = PInf"
  by (subst dbl_at_exponent [where e = 1023]) (simp_all add: pow2_def round_even_def)

lemma dbl_tenth: "dbl (1 / 10) = Fin (3602879701896397 / 2 ^ 55)"
  by (subst dbl_at_exponent [where e = "- 4"]) (simp_all add: pow2_def round_even_def)

lemma dbl_0: "dbl 0 = Fin 0"
  by (simp add: dbl_def)

lemma dbl_1: "dbl 1 = Fin 1"
  by (subst dbl_at_exponent [where e = 0]) (simp_all add: pow2_def round_even_def)

text \<open>
  C10 (as the code has it). For a vector \<open>s\<close> of doubles and a constant \<open>k\<close> such that
  every sum \<open>s[i] + k\<close> is itself a double, so that forming the shifted vector rounds
  nothing, the softmax of the shifted vector is the softmax of \<open>s\<close>.
\<close>

theorem softmax_shift_invariant_exact:
  assumes "\<forall>v\<in>set s. dbl v = Fin v \<and> dbl (v + k) = Fin (v + k)"
  shows "softmax (shifted s k) = softmax (map Fin s)"
proof -
  have "shifted s k = map Fin (map (\<lambda>v. v + k) s)"
    unfolding shifted_def map_map using assms by (intro map_cong) simp_all
  then show ?thesis by (simp only: softmax_shift_reals)
qed

theorem softmax_shift_invariant_exact_witness:
  "dbl 0 = Fin 0 \<and> dbl 1 = Fin 1 \<and> dbl (0 + 2) = Fin (0 + 2) \<and> dbl (1 + 2) = Fin (1 + 2)
   \<and> softmax (shifted [0, 1] 2) = softmax [Fin 0, Fin 1]"
proof -
  have h: "\<forall>v\<in>set [0, 1 :: real]. dbl v = Fin v \<and> dbl (v + 2) = Fin (v + 2)"
    by (simp add: dbl_0 dbl_1 dbl_2 dbl_3)
  from softmax_shift_invariant_exact [OF h] h show ?thesis by simp
qed

text \<open>
  C10 as claimed fails for a constant that makes the sums round: with \<open>s = [0, 1]\<close> and
  \<open>k = 2^53\<close> both entries of the shifted vector are the double \<open>2^53\<close>, whose softmax is
  \<open>[1/2, 1/2]\<close>, not the softmax of \<open>[0, 1]\<close>.
\<close>

theorem softmax_shift_rounded_counterexample:
  "softmax (shifted [0, 1] (2 ^ 53)) \<noteq> softmax [Fin 0, Fin 1]"
proof
  assume eq: "softmax (shifted [0, 1] (2 ^ 53)) = softmax [Fin 0, Fin 1]"
  have sh: "shifted [0, 1] (2 ^ 53) = map Fin [2 ^ 53, 2 ^ 53]"
    using dbl_2_53 dbl_2_53_plus_1 by (simp add: shifted_def)
  have "softmax (map Fin [2 ^ 53, 2 ^ 53]) = softmax (map Fin [0, 1])"
    using eq unfolding sh by simp
  then have "softmax_real [2 ^ 53, 2 ^ 53] = softmax_real [0, 1]"
    unfolding softmax_Fin by (simp add: inj_map_eq_map inj_on_def)
  then have "(1::real) / 2 = exp (- 1) / (exp (- 1) + 1)"
    by (simp add: softmax_real_def)
  then have "exp (- 1 :: real) = 1"
    by (simp add: field_simps)
  then show False by simp
qed

section \<open>Facts about the winning class\<close>

lemma js_strict_eq_Fin [simp]: "js_strict_eq (Fin a) (Fin b) = (a = b)"
  by (simp add: js_strict_eq_def)

lemma indexOf_from_first:
  assumes "m \<in> set ps"
  shows "\<exists>i<length ps. indexOf_from k (map Fin ps) (Fin m) = int (k + i)
           \<and> ps ! i = m \<and> (\<forall>j<i. ps ! j \<noteq> m)"
  using assms
proof (induction ps arbitrary: k)
  case Nil
  then show ?case by simp
next
  case (Cons p ps)
  show ?case
  proof (cases "p = m")
    case True
    then show ?thesis by (intro exI [of _ 0]) simp
  next
    case False
    with Cons.prems have "m \<in> set ps" by simp
    from Cons.IH [OF this, of "Suc k"] obtain i where i: "i < length ps"
      "indexOf_from (Suc k) (map Fin ps) (Fin m) = int (Suc k + i)"
      "ps ! i = m" "\<forall>j<i. ps ! j \<noteq> m" by blast
    have "\<forall>j<Suc i. (p # ps) ! j \<noteq> m"
      using False i(4) by (auto simp: nth_Cons split: nat.splits)
    with i False show ?thesis
      by (intro exI [of _ "Suc i"]) simp
  qed
qed

text \<open>
  C9. On a non-empty vector of finite probabilities the winner \<open>maxIdx\<close>, that is
  \<^verbatim>\<open>probs.indexOf(Math.max(...probs))\<close>, is an index holding the maximum, and every
  index below it holds a smaller value: ties go to the lowest index. On
  \<open>[0.2, 0.5, 0.5]\<close> it is 1.
\<close>

theorem maxIdx_lowest_maximum:
  assumes "ps \<noteq> []"
  shows "\<exists>i<length ps. maxIdx (map Fin ps) = int i
           \<and> ps ! i = Max (set ps) \<and> (\<forall>j<i. ps ! j < Max (set ps))"
proof -
  have "Max (set ps) \<in> set ps" using assms by (intro Max_in) auto
  from indexOf_from_first [OF this, of 0] obtain i where i: "i < length ps"
    "indexOf_from 0 (map Fin ps) (Fin (Max (set ps))) = int i"
    "ps ! i = Max (set ps)" "\<forall>j<i. ps ! j \<noteq> Max (set ps)" by auto
  have "\<forall>j<i. ps ! j < Max (set ps)"
  proof (intro allI impI)
    fix j assume j: "j < i"
    with i(1) have "ps ! j \<in> set ps" by simp
    then have "ps ! j \<le> Max (set ps)" by simp
    with i(4) j show "ps ! j < Max (set ps)" by (simp add: less_le)
  qed
  with i show ?thesis
    by (intro exI [of _ i]) (simp add: maxIdx_def indexOf_def math_max_Fin [OF assms])
qed

theorem maxIdx_lowest_maximum_witness:
  "[2/10, 5/10, 5/10] \<noteq> ([]::real list) \<and> maxIdx [Fin (2/10), Fin (5/10), Fin (5/10)] = 1"
proof -
  have ne: "[2/10, 5/10, 5/10] \<noteq> ([]::real list)" by simp
  from maxIdx_lowest_maximum [OF ne] obtain i where i: "i < 3"
    "maxIdx [Fin (2/10), Fin (5/10), Fin (5/10)] = int i"
    "[2/10, 5/10, 5/10::real] ! i = 5/10" "\<forall>j<i. [2/10, 5/10, 5/10::real] ! j < 5/10"
    by auto
  have "i = 1"
  proof (rule ccontr)
    assume "i \<noteq> 1"
    with i(1) have "i = 0 \<or> i = 2" by arith
    then show False
    proof
      assume "i = 0" with i(3) show False by simp
    next
      assume "i = 2"
      moreover have "(1::nat) < 2" by simp
      ultimately have "[2/10, 5/10, 5/10::real] ! 1 < 5/10" using i(4) by blast
      then show False by simp
    qed
  qed
  with i(2) ne show ?thesis by simp
qed

section \<open>Facts about linear models and scaling\<close>

lemma foldl_js_add_upt:
  "foldl (\<lambda>s i. js_add s (Fin (f i))) (Fin a) [0..<n] = Fin (a + (\<Sum>i<n. f i))"
  by (induction n) (simp_all add: add.assoc)

lemma nth_js_Fin [simp]: "i < length xs \<Longrightarrow> nth_js (map Fin xs) i = Fin (xs ! i)"
  by (simp add: nth_js_def)

lemma linear_score_Fin:
  assumes "length row \<le> length xs"
  shows "linear_score (map Fin row) (Fin b) (map Fin xs) = Fin (b + (\<Sum>i<length row. row ! i * xs ! i))"
proof -
  have "foldl (\<lambda>s i. js_add s (js_mul (map Fin row ! i) (nth_js (map Fin xs) i))) (Fin b) [0..<length row]
      = foldl (\<lambda>s i. js_add s (Fin (row ! i * xs ! i))) (Fin b) [0..<length row]"
    using assms by (intro foldl_cong) simp_all
  then show ?thesis by (simp add: linear_score_def foldl_js_add_upt)
qed

lemma or_zero_Fin [simp]: "or_zero (Fin b) = Fin b"
  by (simp add: or_zero_def)

lemma length_softmax [simp]: "length (softmax arr) = length arr"
  by (simp add: softmax_def Let_def)

lemma softmax_single: "softmax [Fin s] = [Fin 1]"
  using softmax_Fin [of "[s]"] by (simp add: softmax_real_def)

lemma scoreLinear_one_row:
  assumes "length row = length xs"
  shows "scoreLinear [map Fin row] [Fin b] (map Fin xs)
           = softmax [Fin (b + (\<Sum>i<length row. row ! i * xs ! i))]"
  using assms by (simp add: scoreLinear_def linear_score_Fin nth_js_def)

text \<open>
  C1. The claim asks of a linear model with a single coefficient row the softmax of
  \<open>[score, -score]\<close>. The comment on \<open>scoreLinear\<close> announces binary models, yet the
  function makes one score per row and nothing else: on the specification's scenario,
  \<open>coef = [[1,0,0,0]]\<close>, \<open>intercept = [0]\<close>, \<open>xs = [1,0,0,0]\<close>, it returns the
  one-element vector \<open>[1]\<close>, which is not the softmax of \<open>[1, -1]\<close>.
\<close>

theorem scoreLinear_binary_failing_input:
  "scoreLinear [[Fin 1, Fin 0, Fin 0, Fin 0]] [Fin 0] [Fin 1, Fin 0, Fin 0, Fin 0] = [Fin 1]
   \<and> scoreLinear [[Fin 1, Fin 0, Fin 0, Fin 0]] [Fin 0] [Fin 1, Fin 0, Fin 0, Fin 0]
       \<noteq> softmax [Fin 1, Fin (- 1)]"
proof -
  have "scoreLinear [map Fin [1, 0, 0, 0]] [Fin 0] (map Fin [1, 0, 0, 0]) = softmax [Fin (0 + (\<Sum>i<length [1, 0, 0, 0::real]. [1, 0, 0, 0] ! i * [1, 0, 0, 0] ! i))]"
    by (rule scoreLinear_one_row) simp
  then have a: "scoreLinear [[Fin 1, Fin 0, Fin 0, Fin 0]] [Fin 0] [Fin 1, Fin 0, Fin 0, Fin 0] = [Fin 1]"
    by (simp add: softmax_single)
  have "softmax [Fin 1, Fin (- 1)] \<noteq> [Fin 1]"
  proof
    assume "softmax [Fin 1, Fin (- 1)] = [Fin 1]"
    then have "length (softmax [Fin 1, Fin (- 1)]) = length [Fin 1]"
      by (rule arg_cong)
    then show False by simp
  qed
  with a show ?thesis by simp
qed

lemma js_sub_NaN [simp]: "js_sub a NaN = NaN"
  by (cases a) (simp_all add: js_sub_def)




section \<open>Facts about tree traversal\<close>

lemma within_mono:
  "predictTree_within k t xs node = Some r \<Longrightarrow> k \<le> k' \<Longrightarrow> predictTree_within k' t xs node = Some r"
proof (induction k arbitrary: k' node)
  case 0
  then show ?case by simp
next
  case (Suc k)
  from Suc.prems(2) obtain j where k': "k' = Suc j" and kj: "k \<le> j"
    by (cases k') auto
  show ?case
  proof (cases "in_tree t node \<and> \<not> is_leaf (t ! nat node)")
    case True
    with Suc.prems(1) have "predictTree_within k t xs (next_node (t ! nat node) xs) = Some r"
      by simp
    from Suc.IH [OF this kj] True show ?thesis by (simp add: k')
  next
    case False
    with Suc.prems(1) show ?thesis by (auto simp: k')
  qed
qed

lemma within_loop:
  "predictTree_within k t xs node = Some r \<Longrightarrow> predictTree_loop t xs node = Some r"
proof (induction k arbitrary: node)
  case 0
  then show ?case by simp
next
  case (Suc k)
  show ?case
  proof (cases "in_tree t node \<and> \<not> is_leaf (t ! nat node)")
    case True
    with Suc.prems have "predictTree_within k t xs (next_node (t ! nat node) xs) = Some r"
      by simp
    from Suc.IH [OF this] True show ?thesis
      by (subst predictTree_loop.simps) simp
  next
    case False
    with Suc.prems show ?thesis
      by (subst predictTree_loop.simps) auto
  qed
qed

lemma wf_tree_next:
  assumes "wf_tree t rank" and "in_tree t node" and "\<not> is_leaf (t ! nat node)"
  shows "child_ok t rank (nat node) (next_node (t ! nat node) xs)"
proof -
  from assms(2) have "nat node \<in> set [0..<length t]" by (simp add: in_tree_def)
  with assms(1) have "is_leaf (t ! nat node) \<or>
      (child_ok t rank (nat node) (left (t ! nat node)) \<and> child_ok t rank (nat node) (right (t ! nat node)))"
    unfolding wf_tree_def list_all_iff by blast
  with assms(3) show ?thesis by (simp add: next_node_def)
qed

lemma wf_tree_within_card:
  assumes wf: "wf_tree t rank" and "in_tree t node"
  shows "\<exists>c. predictTree_within (card {i. i < length t \<and> rank i \<le> rank (nat node)}) t xs node
               = Some (Inr c)"
proof -
  define S where "S n = {i. i < length t \<and> rank i \<le> rank (nat n)}" for n :: int
  have fin: "finite (S n)" for n
    unfolding S_def by simp
  have step: "in_tree t n \<Longrightarrow> \<exists>c. predictTree_within (card (S n)) t xs n = Some (Inr c)" for n
  proof (induction "rank (nat n)" arbitrary: n rule: less_induct)
    case less
    from less.prems have mem: "nat n \<in> S n"
      unfolding S_def in_tree_def by simp
    with fin [of n] have pos: "0 < card (S n)"
      by (metis card_gt_0_iff empty_iff)
    show ?case
    proof (cases "is_leaf (t ! nat n)")
      case True
      from pos obtain j where j: "card (S n) = Suc j"
        using gr0_implies_Suc by blast
      have "predictTree_within (Suc j) t xs n = Some (Inr (value (t ! nat n)))"
        using True less.prems by simp
      then show ?thesis unfolding j by blast
    next
      case False
      define nxt where "nxt = next_node (t ! nat n) xs"
      from wf_tree_next [OF wf less.prems False, of xs]
      have ok: "in_tree t nxt" "rank (nat nxt) < rank (nat n)"
        unfolding child_ok_def nxt_def by blast+
      from less.hyps [OF ok(2) ok(1)] obtain c where
        c: "predictTree_within (card (S nxt)) t xs nxt = Some (Inr c)" by blast
      have sub: "S nxt \<subseteq> S n"
        unfolding S_def using ok(2) by auto
      have "nat n \<notin> S nxt"
        unfolding S_def using ok(2) by simp
      with mem sub have "S nxt \<subset> S n" by blast
      with fin [of n] have "card (S nxt) < card (S n)" by (rule psubset_card_mono)
      then have "card (S n) = Suc (card (S n) - 1)" and "card (S nxt) \<le> card (S n) - 1"
        by arith+
      then obtain j where j: "card (S n) = Suc j" and le: "card (S nxt) \<le> j"
        by blast
      from within_mono [OF c le] have "predictTree_within j t xs nxt = Some (Inr c)" .
      then have "predictTree_within (Suc j) t xs n = Some (Inr c)"
        using False less.prems unfolding nxt_def by simp
      then show ?thesis unfolding j by blast
    qed
  qed
  from step [OF assms(2)] show ?thesis unfolding S_def .
qed

lemma wf_tree_within:
  assumes "wf_tree t rank"
  shows "\<exists>c. predictTree_within (length t) t xs 0 = Some (Inr c)"
proof -
  from assms have root: "in_tree t 0" by (simp add: wf_tree_def in_tree_def)
  from wf_tree_within_card [OF assms root] obtain c where
    c: "predictTree_within (card {i. i < length t \<and> rank i \<le> rank (nat 0)}) t xs 0 = Some (Inr c)"
    by blast
  have "card {i. i < length t \<and> rank i \<le> rank (nat 0)} \<le> card {..<length t}"
    by (rule card_mono) auto
  then have "card {i. i < length t \<and> rank i \<le> rank (nat 0)} \<le> length t" by simp
  from within_mono [OF c this] show ?thesis by blast
qed

lemma cyclic_tree_root:
  "next_node (cyclic_tree ! nat 0) xs = 0" "in_tree cyclic_tree 0" "\<not> is_leaf (cyclic_tree ! nat 0)"
  by (simp_all add: cyclic_tree_def next_node_def in_tree_def is_leaf_def)

lemma cyclic_tree_loops:
  assumes r: "predictTree_loop t xs node = Some y"
  shows "\<not> (t = cyclic_tree \<and> node = 0)"
proof (rule predictTree_loop.raw_induct
    [where P = "\<lambda>t xs node y. \<not> (t = cyclic_tree \<and> node = 0)", OF _ r])
  fix f :: "node list \<Rightarrow> jsnum list \<Rightarrow> int \<Rightarrow> (error + jsnum list) option"
  fix t xs node y
  assume IH: "\<And>t xs node y. f t xs node = Some y \<Longrightarrow> \<not> (t = cyclic_tree \<and> node = 0)"
    and body: "(if \<not> in_tree t node then Some (Inl TypeError)
                else if is_leaf (t ! nat node) then Some (Inr (value (t ! nat node)))
                else f t xs (next_node (t ! nat node) xs)) = Some y"
  show "\<not> (t = cyclic_tree \<and> node = 0)"
  proof
    assume a: "t = cyclic_tree \<and> node = 0"
    then have t: "t = cyclic_tree" and n: "node = 0" by blast+
    from body have "f cyclic_tree xs 0 = Some y"
      unfolding t n using cyclic_tree_root(1) [of xs] cyclic_tree_root(2,3) by simp
    from IH [OF this] show False by simp
  qed
qed

lemma length_stump: "length stump = 3"
  by (simp add: stump_def)

lemma upt_0_3: "[0..<3] = [0, 1, 2]"
  by (simp add: upt_conv_Cons)

lemma wf_tree_stump: "wf_tree stump stump_rank"
  unfolding wf_tree_def length_stump upt_0_3
  by (simp add: stump_def stump_rank_def child_ok_def in_tree_def is_leaf_def)

text \<open>
  C2 (as the code has it). On a tree that is well-formed (not empty; the children of every
  node that is not a leaf are indices of the tree, of smaller rank, so that no path
  returns to a node), \<open>predictTree\<close> returns the counts of a leaf, for every feature
  vector, after at most as many iterations of its loop as the tree has nodes. The code
  keeps no record of visited nodes and has no MalformedTree error.
\<close>

theorem predictTree_terminates_on_wf_tree:
  assumes "wf_tree t rank"
  shows "\<exists>c. predictTree_within (length t) t xs 0 = Some (Inr c)
            \<and> predictTree t xs = Some (Inr c)"
proof -
  from wf_tree_within [OF assms] obtain c where
    c: "predictTree_within (length t) t xs 0 = Some (Inr c)" by blast
  from within_loop [OF c] have "predictTree t xs = Some (Inr c)"
    unfolding predictTree_def .
  with c show ?thesis by blast
qed

theorem predictTree_terminates_on_wf_tree_witness:
  "wf_tree stump stump_rank
   \<and> (\<exists>c. predictTree_within (length stump) stump [Fin (1/5)] 0 = Some (Inr c)
          \<and> predictTree stump [Fin (1/5)] = Some (Inr c))"
  using predictTree_terminates_on_wf_tree [OF wf_tree_stump, of "[Fin (1/5)]"] wf_tree_stump
  by blast

text \<open>
  C2 as claimed fails: on the one-node tree whose node names itself as both children,
  the traversal never returns; no revisit is detected and no error is raised.
\<close>

theorem predictTree_cycle_counterexample: "predictTree cyclic_tree [Fin 0] = None"
proof (cases "predictTree cyclic_tree [Fin 0]")
  case None
  then show ?thesis .
next
  case (Some y)
  then have "predictTree_loop cyclic_tree [Fin 0] 0 = Some y"
    unfolding predictTree_def .
  from cyclic_tree_loops [OF this] show ?thesis by blast
qed

lemma wf_stree_nth:
  assumes "wf_stree st rank F" and "i < length st" and "st ! i = Internal f th l r"
  shows "f < F \<and> l < length st \<and> r < length st \<and> rank l < rank i \<and> rank r < rank i"
proof -
  from assms(2) have "i \<in> set [0..<length st]" by simp
  with assms(1) have "case st ! i of Leaf cs \<Rightarrow> True
      | Internal f th l r \<Rightarrow> f < F \<and> l < length st \<and> r < length st
                               \<and> rank l < rank i \<and> rank r < rank i"
    unfolding wf_stree_def list_all_iff by blast
  with assms(3) show ?thesis by simp
qed

lemma node_rel_leaf: "node_rel (Leaf cs) n \<Longrightarrow> is_leaf n \<and> value n = map Fin cs"
  by (simp add: node_rel_def is_leaf_def)

lemma node_rel_internal:
  assumes "node_rel (Internal f th l r) n" and "f < length xs"
  shows "\<not> is_leaf n" and "next_node n (map Fin xs) = (if xs ! f \<le> th then int l else int r)"
  using assms by (simp_all add: node_rel_def is_leaf_def next_node_def idx_js_def)

lemma wf_stree_wf_tree:
  assumes rel: "list_all2 node_rel st t" and wf: "wf_stree st rank F"
  shows "wf_tree t rank"
proof -
  from rel have len: "length t = length st" by (simp add: list_all2_lengthD)
  have "is_leaf (t ! i) \<or>
        (child_ok t rank i (left (t ! i)) \<and> child_ok t rank i (right (t ! i)))"
    if i: "i < length t" for i
  proof (cases "st ! i")
    case (Leaf cs)
    from rel i len have "node_rel (st ! i) (t ! i)" by (simp add: list_all2_nthD2)
    with Leaf show ?thesis by (simp add: node_rel_leaf)
  next
    case (Internal f th l r)
    from rel i len have "node_rel (st ! i) (t ! i)" by (simp add: list_all2_nthD2)
    with Internal have lr: "left (t ! i) = int l" "right (t ! i) = int r"
      by (simp_all add: node_rel_def)
    from wf_stree_nth [OF wf _ Internal] i len
    have "l < length st" "r < length st" "rank l < rank i" "rank r < rank i" by simp_all
    then show ?thesis by (simp add: child_ok_def in_tree_def lr len)
  qed
  moreover from wf len have "t \<noteq> []" by (auto simp: wf_stree_def)
  ultimately show ?thesis by (simp add: wf_tree_def list_all_iff)
qed

lemma within_traverse:
  assumes rel: "list_all2 node_rel st t" and wf: "wf_stree st rank (length xs)"
  shows "predictTree_within k t (map Fin xs) node = Some (Inr c)
         \<Longrightarrow> \<exists>cs. c = map Fin cs \<and> traverse_spec st xs (nat node) cs"
proof (induction k arbitrary: node)
  case 0
  then show ?case by simp
next
  case (Suc k)
  from rel have len: "length t = length st" by (simp add: list_all2_lengthD)
  from Suc.prems have inT: "in_tree t node" by (auto split: if_splits)
  then have lt: "nat node < length st" by (simp add: in_tree_def len)
  with rel have nr: "node_rel (st ! nat node) (t ! nat node)" by (simp add: list_all2_nthD)
  show ?case
  proof (cases "st ! nat node")
    case (Leaf cs)
    with nr have "is_leaf (t ! nat node)" "value (t ! nat node) = map Fin cs"
      by (simp_all add: node_rel_leaf)
    with Suc.prems inT have "c = map Fin cs" by simp
    moreover from lt Leaf have "traverse_spec st xs (nat node) cs"
      by (rule traverse_spec.at_leaf)
    ultimately show ?thesis by blast
  next
    case (Internal f th l r)
    from wf_stree_nth [OF wf lt Internal] have f: "f < length xs" by simp
    from nr Internal have ni: "node_rel (Internal f th l r) (t ! nat node)" by simp
    note step = node_rel_internal [OF ni f]
    show ?thesis
    proof (cases "xs ! f \<le> th")
      case True
      with Suc.prems inT step have "predictTree_within k t (map Fin xs) (int l) = Some (Inr c)"
        by simp
      from Suc.IH [OF this] obtain cs where cs: "c = map Fin cs" "traverse_spec st xs l cs"
        by auto
      from traverse_spec.go_left [OF lt Internal True cs(2)] cs(1) show ?thesis by blast
    next
      case False
      then have gt: "th < xs ! f" by simp
      from False Suc.prems inT step
      have "predictTree_within k t (map Fin xs) (int r) = Some (Inr c)"
        by simp
      from Suc.IH [OF this] obtain cs where cs: "c = map Fin cs" "traverse_spec st xs r cs"
        by auto
      from traverse_spec.go_right [OF lt Internal gt cs(2)] cs(1) show ?thesis by blast
    qed
  qed
qed

lemma traverse_spec_det:
  "traverse_spec st xs i cs \<Longrightarrow> traverse_spec st xs i cs' \<Longrightarrow> cs' = cs"
proof (induction arbitrary: cs' rule: traverse_spec.induct)
  case (at_leaf i cs)
  from at_leaf.prems at_leaf.hyps show ?case
    by (cases rule: traverse_spec.cases) simp_all
next
  case (go_left i f th l r cs)
  from go_left.prems show ?case
  proof (cases rule: traverse_spec.cases)
    case at_leaf
    with go_left.hyps show ?thesis by simp
  next
    case (go_left f' th' l' r')
    with go_left.hyps have "l' = l" by simp
    with go_left(4) show ?thesis using go_left.IH by simp
  next
    case (go_right f' th' l' r')
    with go_left.hyps show ?thesis by simp
  qed
next
  case (go_right i f th l r cs)
  from go_right.prems show ?case
  proof (cases rule: traverse_spec.cases)
    case at_leaf
    with go_right.hyps show ?thesis by simp
  next
    case (go_left f' th' l' r')
    with go_right.hyps show ?thesis by simp
  next
    case (go_right f' th' l' r')
    with go_right.hyps have "r' = r" by simp
    with go_right(4) show ?thesis using go_right.IH by simp
  qed
qed

text \<open>
  C8. Let a tree of the specification be well-formed for feature vectors of length \<open>F\<close>,
  and let node records stand for its nodes. Then for every real feature vector of length
  \<open>F\<close>, \<open>predictTree\<close> on the records returns the class counts that the
  specification's traversal reaches from node 0, going left exactly when
  \<open>xs[featureIndex] \<le> threshold\<close> and right otherwise; that traversal has one result
  only. In the witness a feature equal to the threshold reaches the left leaf and a
  feature above it the right leaf.
\<close>

theorem predictTree_follows_spec:
  assumes "list_all2 node_rel st t" and "wf_stree st rank (length xs)"
  shows "\<exists>cs. predictTree t (map Fin xs) = Some (Inr (map Fin cs))
             \<and> traverse_spec st xs 0 cs
             \<and> (\<forall>cs'. traverse_spec st xs 0 cs' \<longrightarrow> cs' = cs)"
proof -
  from wf_tree_within [OF wf_stree_wf_tree [OF assms], of "map Fin xs"] obtain c where
    c: "predictTree_within (length t) t (map Fin xs) 0 = Some (Inr c)" by blast
  from within_traverse [OF assms c] obtain cs where
    cs: "c = map Fin cs" and tr: "traverse_spec st xs 0 cs" by auto
  from within_loop [OF c] have "predictTree t (map Fin xs) = Some (Inr (map Fin cs))"
    unfolding predictTree_def cs .
  with tr traverse_spec_det [OF tr] show ?thesis by blast
qed

lemma stump_rel: "list_all2 node_rel stump_spec stump"
  by (simp add: stump_spec_def stump_def node_rel_def)

lemma wf_stump_spec: "wf_stree stump_spec stump_rank 1"
proof -
  have "length stump_spec = 3" by (simp add: stump_spec_def)
  then show ?thesis
    unfolding wf_stree_def upt_0_3
    by (simp add: stump_spec_def stump_rank_def)
qed

theorem predictTree_follows_spec_witness:
  "list_all2 node_rel stump_spec stump \<and> wf_stree stump_spec stump_rank (length [1/2 :: real])
   \<and> predictTree stump [Fin (1/2)] = Some (Inr [Fin 5, Fin 0])
   \<and> predictTree stump [Fin 1] = Some (Inr [Fin 0, Fin 5])"
proof -
  have wf: "wf_stree stump_spec stump_rank (length [x :: real])" for x
    using wf_stump_spec by simp
  have l1: "traverse_spec stump_spec xs 1 [5, 0]" for xs
    by (rule traverse_spec.at_leaf) (simp_all add: stump_spec_def)
  have l2: "traverse_spec stump_spec xs 2 [0, 5]" for xs
    by (rule traverse_spec.at_leaf) (simp_all add: stump_spec_def)
  have tie: "traverse_spec stump_spec [1/2] 0 [5, 0]"
    by (rule traverse_spec.go_left [where f = 0 and th = "1/2" and l = 1 and r = 2, OF _ _ _ l1])
      (simp_all add: stump_spec_def)
  have above: "traverse_spec stump_spec [1] 0 [0, 5]"
    by (rule traverse_spec.go_right [where f = 0 and th = "1/2" and l = 1 and r = 2, OF _ _ _ l2])
      (simp_all add: stump_spec_def)
  from predictTree_follows_spec [OF stump_rel wf, of "1/2"] tie
  have 1: "predictTree stump (map Fin [1/2]) = Some (Inr (map Fin [5, 0]))" by blast
  from predictTree_follows_spec [OF stump_rel wf, of 1] above
  have 2: "predictTree stump (map Fin [1]) = Some (Inr (map Fin [0, 5]))" by blast
  from 1 2 stump_rel wf [of "1/2"] show ?thesis by simp
qed

section \<open>Facts about random forests\<close>

lemma add_counts_Fin:
  assumes "length cs = length agg"
  shows "add_counts (map Fin agg) (map Fin cs) = map Fin (map2 (+) agg cs)"
proof (rule nth_equalityI)
  show "length (add_counts (map Fin agg) (map Fin cs)) = length (map Fin (map2 (+) agg cs))"
    using assms by (simp add: add_counts_def)
next
  fix i assume "i < length (add_counts (map Fin agg) (map Fin cs))"
  then have i: "i < length agg" using assms by (simp add: add_counts_def)
  then show "add_counts (map Fin agg) (map Fin cs) ! i = map Fin (map2 (+) agg cs) ! i"
    using assms by (simp add: add_counts_def)
qed

lemma rf_accumulate_Fin:
  assumes "list_all2 (\<lambda>tree cs. predictTree tree xs = Some (Inr (map Fin cs)) \<and> length cs = n) ts css"
    and "length agg = n"
  shows "rf_accumulate ts xs (map Fin agg)
           = Some (Inr (map Fin (foldl (\<lambda>agg cs. map2 (+) agg cs) agg css)))"
  using assms
proof (induction ts css arbitrary: agg rule: list_all2_induct)
  case Nil
  then show ?case by simp
next
  case (Cons tree ts cs css)
  from Cons.hyps(1) Cons.prems have len: "length cs = length agg" by simp
  have "length (map2 (+) agg cs) = n" using len Cons.prems by simp
  from Cons.IH [OF this] Cons.hyps(1) show ?case
    by (simp add: add_counts_Fin [OF len])
qed

lemma rf_normalize_Fin:
  assumes "sum_list agg \<noteq> 0"
  shows "rf_normalize (map Fin agg) = map Fin (map (\<lambda>v. v / sum_list agg) agg)"
  using assms by (simp add: rf_normalize_def foldl_js_add_Fin)

lemma foldl_map2_nonneg:
  assumes "\<forall>v\<in>set agg. (0::real) \<le> v" and "\<forall>cs\<in>set css. \<forall>c\<in>set cs. 0 \<le> c"
  shows "\<forall>v\<in>set (foldl (\<lambda>agg cs. map2 (+) agg cs) agg css). 0 \<le> v"
  using assms
proof (induction css arbitrary: agg)
  case Nil
  then show ?case by simp
next
  case (Cons cs css)
  have step: "\<forall>v\<in>set (map2 (+) agg cs). 0 \<le> v"
  proof
    fix v assume "v \<in> set (map2 (+) agg cs)"
    then obtain a c where "(a, c) \<in> set (zip agg cs)" and v: "v = a + c" by auto
    then have "a \<in> set agg" "c \<in> set cs" by (auto dest: set_zip_leftD set_zip_rightD)
    with Cons.prems have "0 \<le> a" "0 \<le> c" by simp_all
    then show "0 \<le> v" by (simp add: v)
  qed
  from Cons.prems(2) have rest: "\<forall>cs\<in>set css. \<forall>c\<in>set cs. 0 \<le> c" by simp
  from Cons.IH [OF step rest] show ?case by simp
qed

lemma sum_counts_nonneg:
  assumes "\<forall>cs\<in>set css. \<forall>c\<in>set cs. 0 \<le> c"
  shows "\<forall>v\<in>set (sum_counts n css). 0 \<le> v"
  unfolding sum_counts_def by (rule foldl_map2_nonneg [OF _ assms]) simp

text \<open>
  C3 (as the code has it). When every tree's traversal returns finite, non-negative
  counts of length \<open>nClasses\<close>, and the grand total of the summed counts is positive and
  below \<open>2^1023\<close> (so that no sum of the program's numbers leaves the finite range),
  \<open>predictRF\<close> returns for every class the summed count divided by the grand total:
  no entry is NaN and every entry lies between 0 and 1. The code has no EmptyEnsemble
  error and does not test the total.
\<close>

theorem predictRF_normalizes:
  assumes "list_all2 (\<lambda>tree cs. predictTree tree xs = Some (Inr (map Fin cs))
                                 \<and> length cs = rf_nClasses ed rfModel) (trees rfModel) css"
    and "\<forall>cs\<in>set css. \<forall>c\<in>set cs. 0 \<le> c"
    and "0 < sum_list (sum_counts (rf_nClasses ed rfModel) css)"
    and "sum_list (sum_counts (rf_nClasses ed rfModel) css) < 2 ^ 1023"
  shows "predictRF ed rfModel xs
           = Some (Inr (map Fin (map (\<lambda>v. v / sum_list (sum_counts (rf_nClasses ed rfModel) css))
                                     (sum_counts (rf_nClasses ed rfModel) css))))
       \<and> (\<forall>p\<in>set (map (\<lambda>v. v / sum_list (sum_counts (rf_nClasses ed rfModel) css))
                        (sum_counts (rf_nClasses ed rfModel) css)). 0 \<le> p \<and> p \<le> 1)"
proof -
  define n where "n = rf_nClasses ed rfModel"
  define agg where "agg = sum_counts n css"
  define total where "total = sum_list agg"
  have "rf_accumulate (trees rfModel) xs (map Fin (replicate n 0)) = Some (Inr (map Fin agg))"
    unfolding agg_def sum_counts_def
    by (rule rf_accumulate_Fin [OF assms(1) [folded n_def]]) simp
  then have acc: "rf_accumulate (trees rfModel) xs (replicate n (Fin 0)) = Some (Inr (map Fin agg))"
    by simp
  have pos: "0 < total" using assms(3) by (simp add: total_def agg_def n_def)
  then have tot: "sum_list agg \<noteq> 0" by (simp add: total_def)
  have res: "predictRF ed rfModel xs = Some (Inr (map Fin (map (\<lambda>v. v / total) agg)))"
    unfolding predictRF_def n_def [symmetric] acc total_def
    by (simp add: rf_normalize_Fin [OF tot])
  have nonneg: "\<forall>v\<in>set agg. 0 \<le> v"
    unfolding agg_def by (rule sum_counts_nonneg [OF assms(2)])
  have "0 \<le> p \<and> p \<le> 1" if "p \<in> set (map (\<lambda>v. v / total) agg)" for p
  proof -
    from that obtain v where v: "v \<in> set agg" and p: "p = v / total" by auto
    from nonneg v have "0 \<le> v" by simp
    moreover have "v \<le> total"
      unfolding total_def
      using elem_le_sum_list_real [where f = "\<lambda>x. x" and xs = agg and v = v] nonneg v by simp
    ultimately show ?thesis using pos by (simp add: p)
  qed
  with res show ?thesis unfolding total_def agg_def n_def by blast
qed

lemma stump_goes_left: "predictTree stump [Fin (1/5)] = Some (Inr [Fin 5, Fin 0])"
proof -
  have "predictTree_within (Suc (Suc 0)) stump [Fin (1/5)] 0 = Some (Inr [Fin 5, Fin 0])"
    by (simp add: stump_def in_tree_def is_leaf_def next_node_def idx_js_def nth_js_def)
  from within_loop [OF this] show ?thesis unfolding predictTree_def .
qed

lemma rf_nClasses_demo: "rf_nClasses demo \<lparr>n_classes = None, trees = ts\<rparr> = 2"
  by (simp add: rf_nClasses_def demo_def)

theorem predictRF_normalizes_witness:
  "predictRF demo \<lparr>n_classes = None, trees = [stump]\<rparr> [Fin (1/5)] = Some (Inr [Fin 1, Fin 0])"
proof -
  have h1: "list_all2 (\<lambda>tree cs. predictTree tree [Fin (1/5)] = Some (Inr (map Fin cs))
                \<and> length cs = rf_nClasses demo \<lparr>n_classes = None, trees = [stump]\<rparr>)
              (trees \<lparr>n_classes = None, trees = [stump]\<rparr>) [[5, 0]]"
    by (simp add: stump_goes_left rf_nClasses_demo)
  have h2: "\<forall>cs\<in>set [[5, 0 :: real]]. \<forall>c\<in>set cs. 0 \<le> c" by simp
  have sc: "sum_counts (rf_nClasses demo \<lparr>n_classes = None, trees = [stump]\<rparr>) [[5, 0]] = [5, 0]"
    by (simp add: sum_counts_def rf_nClasses_demo numeral_2_eq_2)
  have h3: "0 < sum_list (sum_counts (rf_nClasses demo \<lparr>n_classes = None, trees = [stump]\<rparr>) [[5, 0]])"
    unfolding sc by simp
  have h4: "sum_list (sum_counts (rf_nClasses demo \<lparr>n_classes = None, trees = [stump]\<rparr>) [[5, 0]]) < 2 ^ 1023"
    unfolding sc by simp
  from predictRF_normalizes [OF h1 h2 h3 h4, THEN conjunct1] show ?thesis
    unfolding sc by simp
qed

text \<open>
  C3 as claimed fails: with no trees and two classes the aggregate is \<open>[0, 0]\<close>, the total
  is 0, and the call returns \<open>[NaN, NaN]\<close> instead of failing.
\<close>

theorem predictRF_empty_counterexample:
  "predictRF demo \<lparr>n_classes = None, trees = []\<rparr> [Fin 2] = Some (Inr [NaN, NaN])"
  by (simp add: predictRF_def rf_nClasses_demo rf_normalize_def numeral_2_eq_2)

section \<open>Facts about multi-layer perceptrons\<close>

lemma relu_Fin [simp]: "relu (Fin v) = Fin (max 0 v)"
  by (simp add: relu_def max_def)


lemma length_dense_spec [simp]: "length (dense_spec l a) = length (snd l)"
  by (simp add: dense_spec_def)



lemma length_mlp_of [simp]:
  "length (coefs (mlp_of ls)) = length ls" "length (intercepts (mlp_of ls)) = length ls"
  by (simp_all add: mlp_of_def)




section \<open>Facts about dispatch\<close>

lemma predictRF_no_trees:
  "predictRF demo \<lparr>n_classes = None, trees = []\<rparr> xs = Some (Inr [NaN, NaN])"
  by (simp add: predictRF_def rf_nClasses_demo rf_normalize_def numeral_2_eq_2)

lemma mlpPredict_no_layers: "mlpPredict \<lparr>coefs = [], intercepts = []\<rparr> [Fin s] = Inr [Fin 1]"
  unfolding mlpPredict_def by (subst mlp_loop.simps) (simp add: softmax_single)

lemma scoreLinear_demo: "scoreLinear [[Fin 1]] [Fin 0] [Fin 2] = [Fin 1]"
  using scoreLinear_one_row [of "[1]" "[2]" 0] by (simp add: softmax_single)

text \<open>
  C5. For a model name that the document does not have, \<open>predictWithModel\<close> returns
  \<^verbatim>\<open>null\<close> (its not-found result: nothing is thrown, and the call returns); for a
  name it has, the result is that of \<open>scoreLinear\<close>, \<open>predictRF\<close> or \<open>mlpPredict\<close>
  on the model, according to its type.
\<close>

theorem predictWithModel_dispatch:
  "(models ed modelName = None \<longrightarrow> predictWithModel ed modelName xs = Some (Inr None))
   \<and> (\<forall>coef intercept. models ed modelName = Some (Linear coef intercept) \<longrightarrow>
         predictWithModel ed modelName xs = Some (Inr (Some (scoreLinear coef intercept xs))))
   \<and> (\<forall>rfModel. models ed modelName = Some (RF rfModel) \<longrightarrow>
         predictWithModel ed modelName xs = map_option (map_sum id Some) (predictRF ed rfModel xs))
   \<and> (\<forall>mlpModel. models ed modelName = Some (MLP mlpModel) \<longrightarrow>
         predictWithModel ed modelName xs = Some (map_sum id Some (mlpPredict mlpModel xs)))"
  by (simp add: predictWithModel_def)

theorem predictWithModel_dispatch_witness:
  "models demo ''svm'' = None
   \<and> predictWithModel demo ''svm'' [Fin 2] = Some (Inr None)
   \<and> predictWithModel demo ''logistic'' [Fin 2] = Some (Inr (Some [Fin 1]))
   \<and> predictWithModel demo ''random_forest'' [Fin 2] = Some (Inr (Some [NaN, NaN]))
   \<and> predictWithModel demo ''mlp'' [Fin 2] = Some (Inr (Some [Fin 1]))"
proof -
  have m: "models demo ''svm'' = None"
    "models demo ''logistic'' = Some (Linear [[Fin 1]] [Fin 0])"
    "models demo ''random_forest'' = Some (RF \<lparr>n_classes = None, trees = []\<rparr>)"
    "models demo ''mlp'' = Some (MLP \<lparr>coefs = [], intercepts = []\<rparr>)"
    by (simp_all add: demo_def)
  from predictWithModel_dispatch [of demo "''svm''" "[Fin 2]"] m(1)
  have 1: "predictWithModel demo ''svm'' [Fin 2] = Some (Inr None)" by blast
  from predictWithModel_dispatch [of demo "''logistic''" "[Fin 2]"] m(2)
  have "predictWithModel demo ''logistic'' [Fin 2]
          = Some (Inr (Some (scoreLinear [[Fin 1]] [Fin 0] [Fin 2])))"
    by blast
  then have 2: "predictWithModel demo ''logistic'' [Fin 2] = Some (Inr (Some [Fin 1]))"
    by (simp only: scoreLinear_demo)
  from predictWithModel_dispatch [of demo "''random_forest''" "[Fin 2]"] m(3)
  have "predictWithModel demo ''random_forest'' [Fin 2]
          = map_option (map_sum id Some) (predictRF demo \<lparr>n_classes = None, trees = []\<rparr> [Fin 2])"
    by blast
  then have 3: "predictWithModel demo ''random_forest'' [Fin 2] = Some (Inr (Some [NaN, NaN]))"
    by (simp add: predictRF_no_trees)
  from predictWithModel_dispatch [of demo "''mlp''" "[Fin 2]"] m(4)
  have "predictWithModel demo ''mlp'' [Fin 2]
          = Some (map_sum id Some (mlpPredict \<lparr>coefs = [], intercepts = []\<rparr> [Fin 2]))"
    by blast
  then have 4: "predictWithModel demo ''mlp'' [Fin 2] = Some (Inr (Some [Fin 1]))"
    by (simp add: mlpPredict_no_layers)
  from m(1) 1 2 3 4 show ?thesis by blast
qed

section \<open>Facts about the single-model script\<close>

text \<open>
  When \<^verbatim>\<open>intercept\<close> has an entry for every row and none is NaN, the probabilities of
  \<open>predictFromFeatures\<close> are those of \<open>scoreLinear\<close> on the features scaled by
  \<open>scaleFeatures\<close>, and its class index is their \<open>maxIdx\<close>: what is proved of the three
  functions holds of the single-model script too.
\<close>

lemma or_zero_id: "v \<noteq> NaN \<Longrightarrow> or_zero v = v"
  by (auto simp: or_zero_def)

lemma predictFromFeatures_as_multi_model:
  assumes "length coef \<le> length intercept" and "NaN \<notin> set intercept"
  shows "probs (predictFromFeatures mean scale coef intercept names features)
           = scoreLinear coef intercept
               (scaleFeatures \<lparr>scaler_mean = mean, scaler_scale = scale,
                               class_names = names, models = ms\<rparr> features)
       \<and> classIndex (predictFromFeatures mean scale coef intercept names features)
           = maxIdx (probs (predictFromFeatures mean scale coef intercept names features))"
proof -
  have "or_zero (nth_js intercept c) = nth_js intercept c" if "c < length coef" for c
  proof -
    from that assms(1) have "c < length intercept" by simp
    then have "nth_js intercept c \<in> set intercept" by (simp add: nth_js_def)
    with assms(2) have "nth_js intercept c \<noteq> NaN" by metis
    then show ?thesis by (rule or_zero_id)
  qed
  then have eq: "map (\<lambda>c. linear_score (coef ! c) (or_zero (nth_js intercept c)) xs) [0..<length coef]
           = map (\<lambda>c. linear_score (coef ! c) (nth_js intercept c) xs) [0..<length coef]" for xs
    by (intro map_cong) simp_all
  show ?thesis
    unfolding predictFromFeatures_def scoreLinear_def scaleFeatures_def Let_def eq by simp
qed

end
